theory Spec2Isabelle
  imports Main "HOL-Library.Sublist"
begin

section \<open>Strings and the library calls the cleaner makes\<close>

text \<open>
  A Python \<open>str\<close> is a sequence of code points. It is modelled as a \<open>string\<close>, where a
  \<open>char\<close> stands for one code point below 256 (so \<open>length\<close> counts code points). On this
  range the tables of \<open>str.split\<close>, \<open>str.strip\<close>, \<open>str.lower\<close> and of the regular
  expression classes used by the scripts are written out in full below.
\<close>

definition isspace :: "char \<Rightarrow> bool" where
  \<comment> \<open>the code points below 256 that \<open>str.split()\<close> and \<open>str.strip()\<close> treat as whitespace\<close>
  "isspace c = (c \<in> set [CHR 0x09, CHR 0x0A, CHR 0x0B, CHR 0x0C, CHR 0x0D,
                          CHR 0x1C, CHR 0x1D, CHR 0x1E, CHR 0x1F, CHR 0x20,
                          CHR 0x85, CHR 0xA0])"

definition is_digit :: "char \<Rightarrow> bool" where
  \<comment> \<open>the regular expression class \<open>\d\<close>\<close>
  "is_digit c = (c \<in> set ''0123456789'')"

definition is_az :: "char \<Rightarrow> bool" where
  \<comment> \<open>the regular expression class \<open>[a-z]\<close>\<close>
  "is_az c = (c \<in> set ''abcdefghijklmnopqrstuvwxyz'')"

definition is_vowel :: "char \<Rightarrow> bool" where
  \<comment> \<open>the regular expression class \<open>[aeiou]\<close>\<close>
  "is_vowel c = (c \<in> set ''aeiou'')"

definition lower_char :: "char \<Rightarrow> char" where
  \<comment> \<open>\<open>str.lower()\<close> on one code point below 256: A-Z and the Latin-1 capitals
      0xC0-0xDE (without the multiplication sign 0xD7) move up by 32\<close>
  "lower_char c =
     (let n = (of_char c :: nat)
      in if (65 \<le> n \<and> n \<le> 90) \<or> (192 \<le> n \<and> n \<le> 222 \<and> n \<noteq> 215)
         then char_of (n + 32) else c)"

definition py_lower :: "string \<Rightarrow> string" where
  "py_lower s = map lower_char s"

definition py_strip :: "string \<Rightarrow> string" where
  \<comment> \<open>\<open>text.strip()\<close>: leading and trailing whitespace removed\<close>
  "py_strip s = rev (dropWhile isspace (rev (dropWhile isspace s)))"

function py_split :: "string \<Rightarrow> string list" where
  \<comment> \<open>\<open>text.split()\<close>: the maximal runs of non-whitespace, in order\<close>
  "py_split [] = []"
| "py_split (c # cs) =
     (if isspace c then py_split cs
      else (c # takeWhile (\<lambda>x. \<not> isspace x) cs) # py_split (dropWhile (\<lambda>x. \<not> isspace x) cs))"
  by pat_completeness auto
termination
  by (relation "measure length") (auto simp: less_Suc_eq_le length_dropWhile_le)

fun py_join :: "string \<Rightarrow> string list \<Rightarrow> string" where
  \<comment> \<open>\<open>sep.join(words)\<close>\<close>
  "py_join sep [] = []"
| "py_join sep [w] = w"
| "py_join sep (w # ws) = w @ sep @ py_join sep ws"

fun starts_with :: "string \<Rightarrow> string \<Rightarrow> bool" where
  \<comment> \<open>\<open>starts_with p w\<close>: \<open>w\<close> begins with \<open>p\<close>\<close>
  "starts_with [] w = True"
| "starts_with (p # ps) [] = False"
| "starts_with (p # ps) (c # cs) = (p = c \<and> starts_with ps cs)"

fun contains :: "string \<Rightarrow> string \<Rightarrow> bool" where
  \<comment> \<open>\<open>contains p w\<close> is Python's \<open>p in w\<close> on strings: \<open>p\<close> occurs as a contiguous substring\<close>
  "contains p [] = (p = [])"
| "contains p (c # cs) = (starts_with p (c # cs) \<or> contains p cs)"

fun search_repeat :: "string \<Rightarrow> bool" where
  \<comment> \<open>\<open>re.search(r"(.)\1{3,}", word)\<close>: some character other than a newline
      (the dot does not match \<open>\n\<close>) stands four times in a row\<close>
  "search_repeat (a # b # c # d # rest) =
     ((a \<noteq> CHR 0x0A \<and> a = b \<and> a = c \<and> a = d) \<or> search_repeat (b # c # d # rest))"
| "search_repeat word = False"

definition search_vowel :: "string \<Rightarrow> bool" where
  \<comment> \<open>\<open>re.search(r"[aeiou]", word)\<close>\<close>
  "search_vowel word = list_ex is_vowel word"

function sub_markers :: "string \<Rightarrow> string" where
  \<comment> \<open>\<open>re.sub(r"@@\d+", " ", text)\<close>: scanning from the left, \<open>@@\<close> followed by at least one
      digit is replaced, together with the whole run of digits, by one space\<close>
  "sub_markers [] = []"
| "sub_markers (c # cs) =
     (if c = CHR ''@'' \<and> starts_with ''@'' cs \<and> takeWhile is_digit (tl cs) \<noteq> []
      then CHR '' '' # sub_markers (dropWhile is_digit (tl cs))
      else c # sub_markers cs)"
  by pat_completeness auto
termination
proof (relation "measure length")
  fix c :: char and cs :: string
  have "length (dropWhile is_digit (tl cs)) \<le> length (tl cs)"
    by (rule length_dropWhile_le)
  then show "(dropWhile is_digit (tl cs), c # cs) \<in> measure length"
    by simp
qed simp_all

function sub_tags :: "string \<Rightarrow> string" where
  \<comment> \<open>\<open>re.sub(r"<[^>]+>", " ", text)\<close>: scanning from the left, a \<open><\<close> followed by at least
      one character other than \<open>>\<close> and then a \<open>>\<close> is replaced, up to that \<open>>\<close>, by one space\<close>
  "sub_tags [] = []"
| "sub_tags (c # cs) =
     (if c = CHR ''<'' \<and> takeWhile (\<lambda>x. x \<noteq> CHR ''>'') cs \<noteq> []
           \<and> dropWhile (\<lambda>x. x \<noteq> CHR ''>'') cs \<noteq> []
      then CHR '' '' # sub_tags (tl (dropWhile (\<lambda>x. x \<noteq> CHR ''>'') cs))
      else c # sub_tags cs)"
  by pat_completeness auto
termination
proof (relation "measure length")
  fix c :: char and cs :: string
  have "length (dropWhile (\<lambda>x. x \<noteq> CHR ''>'') cs) \<le> length cs"
    by (rule length_dropWhile_le)
  then show "(tl (dropWhile (\<lambda>x. x \<noteq> CHR ''>'') cs), c # cs) \<in> measure length"
    by simp
qed simp_all

definition sub_non_az :: "string \<Rightarrow> string" where
  \<comment> \<open>\<open>re.sub(r"[^a-z]", "", clean_word)\<close>\<close>
  "sub_non_az s = filter is_az s"


section \<open>The gibberish classifier\<close>

fun any_pattern_in :: "string list \<Rightarrow> string \<Rightarrow> bool" where
  \<comment> \<open>the loop \<open>for pattern in table: if pattern in word: return True\<close>, then \<open>return False\<close>\<close>
  "any_pattern_in [] word = False"
| "any_pattern_in (pattern # rest) word =
     (if contains pattern word then True else any_pattern_in rest word)"

subsection \<open>filter.py\<close>

definition kbd_patt :: "string list" where
  "kbd_patt =
     [''qwert'', ''asdfg'', ''zxcvb'', ''yuiop'', ''hjkl'', ''bnm'', ''poiuy'', ''lkjhg'',
      ''fdsa'', ''mnbvc'', ''qazwsx'', ''edcrfv'', ''tgbnhy'', ''ujmki'', ''plm'', ''qaz'',
      ''wsx'', ''edc'', ''rfv'', ''tgb'', ''yhn'', ''ujm'', ''ikm'', '' plm'']"

definition is_gibberish :: "string \<Rightarrow> bool" where
  "is_gibberish word =
     (if length word < 2 then True
      else if length word > 32 then True
      else if search_repeat word then True
      else if length word > 5 \<and> \<not> search_vowel word then True
      else any_pattern_in kbd_patt word)"

subsection \<open>filter\_corpus.py\<close>

definition keyboard_patterns :: "string list" where
  "keyboard_patterns =
     [''qwert'', ''asdfg'', ''zxcvb'', ''yuiop'', ''hjkl'', ''bnm'',
      ''poiuy'', ''lkjhg'', ''fdsa'', ''mnbvc'']"

definition is_gibberish_corpus :: "string \<Rightarrow> bool" where
  "is_gibberish_corpus word =
     (if length word < 2 then True
      else if length word > 25 then True
      else if search_repeat word then True
      else if length word > 5 \<and> \<not> search_vowel word then True
      else any_pattern_in keyboard_patterns word)"


section \<open>The text cleaner\<close>

subsection \<open>filter.py\<close>

definition append_word :: "string set \<Rightarrow> string list \<Rightarrow> string \<Rightarrow> string list" where
  \<comment> \<open>one round of the loop over \<open>text.split()\<close>: \<open>words\<close> before, \<open>words\<close> after\<close>
  "append_word stop_words words word =
     (let clean_word = py_lower word;
          clean_word = sub_non_az clean_word
      in if clean_word \<noteq> [] \<and> clean_word \<notin> stop_words \<and> \<not> is_gibberish clean_word
         then words @ [clean_word] else words)"

definition clean_text :: "string \<Rightarrow> string set \<Rightarrow> string" where
  "clean_text text stop_words =
     (if text = [] \<or> py_strip text = [] then []
      else let text1 = sub_markers text;
               text2 = sub_tags text1
           in py_join '' '' (foldl (append_word stop_words) [] (py_split text2)))"

subsection \<open>filter\_corpus.py\<close>

definition append_word_corpus :: "string set \<Rightarrow> string list \<Rightarrow> string \<Rightarrow> string list" where
  "append_word_corpus stop_words words word =
     (let clean_word = py_lower word;
          clean_word = sub_non_az clean_word
      in if clean_word \<noteq> [] \<and> clean_word \<notin> stop_words \<and> \<not> is_gibberish_corpus clean_word
         then words @ [clean_word] else words)"

definition clean_text_corpus :: "string \<Rightarrow> string set \<Rightarrow> string" where
  "clean_text_corpus text stop_words =
     (let text1 = sub_markers text;
          text2 = sub_tags text1
      in py_join '' '' (foldl (append_word_corpus stop_words) [] (py_split text2)))"



section \<open>Notions of the specification\<close>

definition normalized :: "string \<Rightarrow> string" where
  \<comment> \<open>the normalized token: lowercased, then every character outside a-z removed\<close>
  "normalized word = sub_non_az (py_lower word)"

definition survives :: "string set \<Rightarrow> string \<Rightarrow> bool" where
  \<comment> \<open>the test of filter.py under which a normalized token is kept\<close>
  "survives stop_words w = (w \<noteq> [] \<and> w \<notin> stop_words \<and> \<not> is_gibberish w)"

definition survives_corpus :: "string set \<Rightarrow> string \<Rightarrow> bool" where
  \<comment> \<open>the test of filter\_corpus.py under which a normalized token is kept\<close>
  "survives_corpus stop_words w = (w \<noteq> [] \<and> w \<notin> stop_words \<and> \<not> is_gibberish_corpus w)"

definition gibberish_by :: "nat \<Rightarrow> string list \<Rightarrow> string \<Rightarrow> bool" where
  \<comment> \<open>the checks the two classifiers have in common, with the length cap and the
      keyboard-pattern table left open\<close>
  "gibberish_by cap table word =
     (if length word < 2 then True
      else if length word > cap then True
      else if search_repeat word then True
      else if length word > 5 \<and> \<not> search_vowel word then True
      else any_pattern_in table word)"


section \<open>Facts about the library calls\<close>

lemma char_of_eval:
  "char_of (n::nat) = Char (odd n) (odd (n div 2)) (odd (n div 4)) (odd (n div 8))
      (odd (n div 16)) (odd (n div 32)) (odd (n div 64)) (odd (n div 128))"
  by (simp add: char_of_def bit_iff_odd)

lemma sub_tags_examples:
  "sub_tags ''<<a> <> <ab>c <x'' = ''  <>  c <x''"
  "sub_tags (''x<a'' @ [CHR 0x0A] @ ''b>y'') = ''x y''"
  by simp_all

lemma sub_markers_examples:
  "sub_markers ''@@@12 @@ @@1a'' = ''@  @@  a''"
  by (simp add: is_digit_def)

lemma py_split_example:
  "py_split ([CHR 0x20, CHR ''a'', CHR 0xA0, CHR ''b'', CHR 0x0A] @ ''c d'') = [''a'', ''b'', ''c'', ''d'']"
  by (simp add: isspace_def)

lemma py_lower_example:
  "py_lower (''Hello, World! 123'' @ [CHR 0xC0, CHR 0xD7, CHR 0xDE, CHR 0xDF])
     = ''hello, world! 123'' @ [CHR 0xE0, CHR 0xD7, CHR 0xFE, CHR 0xDF]"
  by (simp add: py_lower_def lower_char_def char_of_eval)

lemma is_az_not_space: "is_az c \<Longrightarrow> \<not> isspace c"
  by (auto simp: is_az_def isspace_def)

lemma is_az_not_markup:
  "is_az c \<Longrightarrow> c \<noteq> CHR ''@'' \<and> c \<noteq> CHR ''<'' \<and> c \<noteq> CHR ''>'' \<and> c \<noteq> CHR '' '' \<and> \<not> is_digit c"
  by (auto simp: is_az_def is_digit_def)

lemma is_az_lower: "is_az c \<Longrightarrow> lower_char c = c"
  by (auto simp: is_az_def lower_char_def)

lemma isspace_not_markup: "isspace c \<Longrightarrow> c \<noteq> CHR ''@'' \<and> c \<noteq> CHR ''<''"
  by (auto simp: isspace_def)

lemma sub_markers_id: "CHR ''@'' \<notin> set s \<Longrightarrow> sub_markers s = s"
  by (induction s) auto

lemma sub_tags_id: "CHR ''<'' \<notin> set s \<Longrightarrow> sub_tags s = s"
  by (induction s) auto

lemma py_split_blank: "\<forall>c\<in>set s. isspace c \<Longrightarrow> py_split s = []"
  by (induction s) auto

lemma py_strip_Nil_iff: "py_strip s = [] \<longleftrightarrow> (\<forall>c\<in>set s. isspace c)"
proof
  assume "py_strip s = []"
  then have all: "\<forall>c\<in>set (dropWhile isspace s). isspace c"
    by (simp add: py_strip_def dropWhile_eq_Nil_conv)
  have "dropWhile isspace s = []"
  proof (rule ccontr)
    assume ne: "dropWhile isspace s \<noteq> []"
    then have "\<not> isspace (hd (dropWhile isspace s))"
      by (rule hd_dropWhile)
    moreover have "hd (dropWhile isspace s) \<in> set (dropWhile isspace s)"
      using ne by simp
    ultimately show False using all by blast
  qed
  then show "\<forall>c\<in>set s. isspace c"
    by (simp add: dropWhile_eq_Nil_conv)
next
  assume "\<forall>c\<in>set s. isspace c"
  then have "dropWhile isspace s = []"
    by (simp add: dropWhile_eq_Nil_conv)
  then show "py_strip s = []"
    by (simp add: py_strip_def del: dropWhile_eq_Nil_conv)
qed

lemma py_split_word:
  assumes "w \<noteq> []" and "\<forall>c\<in>set w. \<not> isspace c"
  shows "py_split w = [w]"
proof -
  from assms obtain a as where w: "w = a # as" by (cases w) auto
  from assms w have "takeWhile (\<lambda>x. \<not> isspace x) as = as"
    and "dropWhile (\<lambda>x. \<not> isspace x) as = []"
    by simp_all
  with assms w show ?thesis
    by (simp del: dropWhile_eq_Nil_conv takeWhile_eq_all_conv)
qed

lemma py_split_word_space:
  assumes "w \<noteq> []" and "\<forall>c\<in>set w. \<not> isspace c" and "isspace sp"
  shows "py_split (w @ sp # rest) = w # py_split rest"
proof -
  from assms obtain a as where w: "w = a # as" by (cases w) auto
  with assms show ?thesis by (simp add: takeWhile_append2 dropWhile_append2)
qed

lemma isspace_space: "isspace (CHR '' '')"
  by (simp add: isspace_def)

lemma py_split_join:
  "\<forall>w\<in>set ws. w \<noteq> [] \<and> (\<forall>c\<in>set w. \<not> isspace c) \<Longrightarrow> py_split (py_join '' '' ws) = ws"
proof (induction ws)
  case Nil
  then show ?case by simp
next
  case (Cons w ws)
  show ?case
  proof (cases ws)
    case Nil
    with Cons.prems show ?thesis by (simp add: py_split_word)
  next
    case (Cons v vs)
    have "py_split (w @ CHR '' '' # py_join '' '' ws) = w # py_split (py_join '' '' ws)"
      using Cons.prems by (intro py_split_word_space) (simp_all add: isspace_space)
    with Cons Cons.IH Cons.prems show ?thesis by simp
  qed
qed

lemma set_py_join: "set (py_join sep ws) \<subseteq> \<Union> (set ` set ws) \<union> set sep"
  by (induction sep ws rule: py_join.induct) auto

lemma foldl_append_word:
  "foldl (append_word sw) acc ws = acc @ filter (survives sw) (map normalized ws)"
  by (induction ws arbitrary: acc) (simp_all add: append_word_def survives_def normalized_def Let_def)

lemma foldl_append_word_corpus:
  "foldl (append_word_corpus sw) acc ws = acc @ filter (survives_corpus sw) (map normalized ws)"
  by (induction ws arbitrary: acc)
     (simp_all add: append_word_corpus_def survives_corpus_def normalized_def Let_def)

lemma normalized_az: "c \<in> set (normalized w) \<Longrightarrow> is_az c"
  by (simp add: normalized_def sub_non_az_def)

lemma normalized_id: "\<forall>c\<in>set w. is_az c \<Longrightarrow> normalized w = w"
  by (simp add: normalized_def sub_non_az_def py_lower_def is_az_lower map_idI)


lemma starts_with_set: "starts_with p w \<Longrightarrow> set p \<subseteq> set w"
  by (induction p w rule: starts_with.induct) auto

lemma contains_set: "contains p w \<Longrightarrow> set p \<subseteq> set w"
proof (induction w)
  case Nil
  then show ?case by simp
next
  case (Cons c cs)
  from Cons.prems have "starts_with p (c # cs) \<or> contains p cs" by simp
  then show ?case
  proof
    assume "starts_with p (c # cs)"
    then show ?thesis by (rule starts_with_set)
  next
    assume "contains p cs"
    then have "set p \<subseteq> set cs" by (rule Cons.IH)
    then show ?thesis by auto
  qed
qed

lemma blank_no_markup:
  assumes "\<forall>c\<in>set s. isspace c"
  shows "CHR ''@'' \<notin> set s" and "CHR ''<'' \<notin> set s"
  using assms isspace_not_markup by blast+

lemma clean_text_filter:
  "clean_text text sw =
     py_join '' '' (filter (survives sw) (map normalized (py_split (sub_tags (sub_markers text)))))"
proof (cases "text = [] \<or> py_strip text = []")
  case True
  then have blank: "\<forall>c\<in>set text. isspace c"
    by (auto simp: py_strip_Nil_iff)
  then have "sub_tags (sub_markers text) = text"
    by (simp add: blank_no_markup sub_markers_id sub_tags_id)
  with blank True show ?thesis
    by (simp add: clean_text_def py_split_blank)
next
  case False
  then show ?thesis
    by (simp add: clean_text_def foldl_append_word)
qed

lemma clean_text_corpus_filter:
  "clean_text_corpus text sw =
     py_join '' '' (filter (survives_corpus sw) (map normalized (py_split (sub_tags (sub_markers text)))))"
  by (simp add: clean_text_corpus_def foldl_append_word_corpus)

lemma join_az_chars:
  assumes "\<forall>w\<in>set ws. \<forall>c\<in>set w. is_az c" and "c \<in> set (py_join '' '' ws)"
  shows "is_az c \<or> c = CHR '' ''"
  using assms set_py_join[of "'' ''" ws] by auto

lemma join_az_split:
  assumes "\<forall>w\<in>set ws. w \<noteq> [] \<and> (\<forall>c\<in>set w. is_az c)"
  shows "py_split (py_join '' '' ws) = ws"
  using assms by (intro py_split_join) (auto dest: is_az_not_space)

lemma join_az_no_markup:
  assumes "\<forall>w\<in>set ws. \<forall>c\<in>set w. is_az c"
  shows "CHR ''@'' \<notin> set (py_join '' '' ws)" and "CHR ''<'' \<notin> set (py_join '' '' ws)"
    and "CHR ''>'' \<notin> set (py_join '' '' ws)" and "\<forall>c\<in>set (py_join '' '' ws). \<not> is_digit c"
proof -
  have *: "is_az c \<or> c = CHR '' ''" if "c \<in> set (py_join '' '' ws)" for c
    using assms that by (rule join_az_chars)
  show "CHR ''@'' \<notin> set (py_join '' '' ws)"
  proof
    assume "CHR ''@'' \<in> set (py_join '' '' ws)"
    then have "is_az (CHR ''@'') \<or> CHR ''@'' = CHR '' ''" by (rule *)
    then show False by (simp add: is_az_def)
  qed
  show "CHR ''<'' \<notin> set (py_join '' '' ws)"
  proof
    assume "CHR ''<'' \<in> set (py_join '' '' ws)"
    then have "is_az (CHR ''<'') \<or> CHR ''<'' = CHR '' ''" by (rule *)
    then show False by (simp add: is_az_def)
  qed
  show "CHR ''>'' \<notin> set (py_join '' '' ws)"
  proof
    assume "CHR ''>'' \<in> set (py_join '' '' ws)"
    then have "is_az (CHR ''>'') \<or> CHR ''>'' = CHR '' ''" by (rule *)
    then show False by (simp add: is_az_def)
  qed
  show "\<forall>c\<in>set (py_join '' '' ws). \<not> is_digit c"
  proof
    fix c assume "c \<in> set (py_join '' '' ws)"
    then have "is_az c \<or> c = CHR '' ''" by (rule *)
    then show "\<not> is_digit c"
    proof
      assume "is_az c"
      then show ?thesis using is_az_not_markup by simp
    next
      assume "c = CHR '' ''"
      then show ?thesis by (simp add: is_digit_def)
    qed
  qed
qed

lemma reclean_fixed:
  assumes "\<forall>w\<in>set ws. w \<noteq> [] \<and> (\<forall>c\<in>set w. is_az c) \<and> P w"
  shows "filter P (map normalized (py_split (sub_tags (sub_markers (py_join '' '' ws))))) = ws"
proof -
  have az: "\<forall>w\<in>set ws. \<forall>c\<in>set w. is_az c" using assms by blast
  have "sub_tags (sub_markers (py_join '' '' ws)) = py_join '' '' ws"
    using join_az_no_markup(1,2)[OF az] by (simp add: sub_markers_id sub_tags_id)
  moreover have "py_split (py_join '' '' ws) = ws"
    using assms by (intro join_az_split) blast
  moreover have "map normalized ws = ws"
    using az by (intro map_idI normalized_id) blast
  moreover have "filter P ws = ws"
    using assms by (simp add: filter_id_conv)
  ultimately show ?thesis by simp
qed

lemma shape_of_join:
  assumes "\<forall>w\<in>set ws. w \<noteq> [] \<and> (\<forall>c\<in>set w. is_az c)" and "out = py_join '' '' ws"
  shows "out = py_join '' '' (py_split out)
         \<and> (\<forall>w\<in>set (py_split out). w \<noteq> [] \<and> (\<forall>c\<in>set w. is_az c))
         \<and> CHR ''<'' \<notin> set out \<and> CHR ''>'' \<notin> set out
         \<and> (\<forall>c\<in>set out. \<not> is_digit c) \<and> \<not> contains ''@@'' out"
proof -
  have az: "\<forall>w\<in>set ws. \<forall>c\<in>set w. is_az c" using assms by blast
  have split: "py_split out = ws"
    using assms by (simp add: join_az_split)
  have "CHR ''@'' \<notin> set out"
    using join_az_no_markup(1)[OF az] assms(2) by simp
  then have "\<not> contains ''@@'' out"
    using contains_set[of "''@@''" out] by auto
  with split assms join_az_no_markup(2,3,4)[OF az] show ?thesis
    by simp
qed

lemma starts_with_iff: "starts_with p w \<longleftrightarrow> (\<exists>y. w = p @ y)"
  by (induction p w rule: starts_with.induct) auto

lemma contains_iff: "contains p w \<longleftrightarrow> (\<exists>x y. w = x @ p @ y)"
proof (induction w)
  case Nil
  then show ?case by simp
next
  case (Cons c cs)
  have "(\<exists>x y. c # cs = x @ p @ y) \<longleftrightarrow> (\<exists>y. c # cs = p @ y) \<or> (\<exists>x y. cs = x @ p @ y)"
  proof
    assume "\<exists>x y. c # cs = x @ p @ y"
    then obtain x y where xy: "c # cs = x @ p @ y" by blast
    show "(\<exists>y. c # cs = p @ y) \<or> (\<exists>x y. cs = x @ p @ y)"
    proof (cases x)
      case Nil
      with xy show ?thesis by auto
    next
      case (Cons a x')
      with xy have "cs = x' @ p @ y" by simp
      then show ?thesis by blast
    qed
  next
    assume "(\<exists>y. c # cs = p @ y) \<or> (\<exists>x y. cs = x @ p @ y)"
    then show "\<exists>x y. c # cs = x @ p @ y"
    proof
      assume "\<exists>y. c # cs = p @ y"
      then obtain y where "c # cs = [] @ p @ y" by auto
      then show ?thesis by blast
    next
      assume "\<exists>x y. cs = x @ p @ y"
      then obtain x y where "c # cs = (c # x) @ p @ y" by auto
      then show ?thesis by blast
    qed
  qed
  with Cons.IH show ?case by (simp add: starts_with_iff)
qed

lemma contains_tail: "contains (a # p) w \<Longrightarrow> contains p w"
proof -
  assume "contains (a # p) w"
  then obtain x y where "w = x @ (a # p) @ y" by (auto simp: contains_iff)
  then have "w = (x @ [a]) @ p @ y" by simp
  then show "contains p w" unfolding contains_iff by blast
qed

lemma any_pattern_in_iff: "any_pattern_in table w \<longleftrightarrow> (\<exists>p\<in>set table. contains p w)"
  by (induction table) auto

lemma search_repeat_run: "search_repeat w \<Longrightarrow> \<exists>c. contains [c, c, c, c] w"
proof (induction w rule: search_repeat.induct)
  case (1 a b c d rest)
  from "1.prems" have "(a = b \<and> a = c \<and> a = d) \<or> search_repeat (b # c # d # rest)"
    by auto
  then show ?case
  proof
    assume "a = b \<and> a = c \<and> a = d"
    then have "b = a" and "c = a" and "d = a" by auto
    then have "contains [a, a, a, a] (a # b # c # d # rest)" by simp
    then show ?thesis by blast
  next
    assume "search_repeat (b # c # d # rest)"
    then obtain x where "contains [x, x, x, x] (b # c # d # rest)"
      using "1.IH" by blast
    then have "contains [x, x, x, x] (a # b # c # d # rest)" by simp
    then show ?thesis by blast
  qed
qed simp_all

lemma search_vowel_iff: "search_vowel w \<longleftrightarrow> set w \<inter> set ''aeiou'' \<noteq> {}"
  by (induction w) (auto simp: search_vowel_def is_vowel_def)

lemma is_gibberish_by: "is_gibberish w = gibberish_by 32 kbd_patt w"
  by (simp add: is_gibberish_def gibberish_by_def)

lemma is_gibberish_corpus_by: "is_gibberish_corpus w = gibberish_by 25 keyboard_patterns w"
  by (simp add: is_gibberish_corpus_def gibberish_by_def)

lemma gibberish_by_table:
  assumes "(\<exists>p\<in>set t1. contains p w) \<longleftrightarrow> (\<exists>p\<in>set t2. contains p w)"
  shows "gibberish_by cap t1 w = gibberish_by cap t2 w"
  using assms by (simp add: gibberish_by_def any_pattern_in_iff)

lemma gibberish_by_cap:
  assumes "length w \<le> cap1" and "length w \<le> cap2"
  shows "gibberish_by cap1 table w = gibberish_by cap2 table w"
  using assms by (simp add: gibberish_by_def)


section \<open>The output of the cleaner\<close>

text \<open>
  C1: for every raw text and every stop-word set, the string that \<open>clean_text\<close> returns
  (in either script) is the single-space join of its own whitespace-delimited tokens, and each
  of these tokens is non-empty and made of the letters a-z only. So the output is empty or is
  one or more \<open>[a-z]+\<close> tokens separated by single spaces, without leading or trailing
  whitespace; it contains no \<open><\<close>, no \<open>>\<close>, no digit and no \<open>@@\<close>.
\<close>

theorem clean_text_output_shape:
  "(let out = clean_text text sw
    in out = py_join '' '' (py_split out)
       \<and> (\<forall>w\<in>set (py_split out). w \<noteq> [] \<and> (\<forall>c\<in>set w. is_az c))
       \<and> CHR ''<'' \<notin> set out \<and> CHR ''>'' \<notin> set out
       \<and> (\<forall>c\<in>set out. \<not> is_digit c) \<and> \<not> contains ''@@'' out)
   \<and> (let out = clean_text_corpus text sw
    in out = py_join '' '' (py_split out)
       \<and> (\<forall>w\<in>set (py_split out). w \<noteq> [] \<and> (\<forall>c\<in>set w. is_az c))
       \<and> CHR ''<'' \<notin> set out \<and> CHR ''>'' \<notin> set out
       \<and> (\<forall>c\<in>set out. \<not> is_digit c) \<and> \<not> contains ''@@'' out)"
proof -
  let ?ts = "map normalized (py_split (sub_tags (sub_markers text)))"
  have a: "\<forall>w\<in>set (filter (survives sw) ?ts). w \<noteq> [] \<and> (\<forall>c\<in>set w. is_az c)"
    by (auto simp: survives_def dest: normalized_az)
  have b: "\<forall>w\<in>set (filter (survives_corpus sw) ?ts). w \<noteq> [] \<and> (\<forall>c\<in>set w. is_az c)"
    by (auto simp: survives_corpus_def dest: normalized_az)
  show ?thesis
    unfolding Let_def
    using shape_of_join[OF a clean_text_filter] shape_of_join[OF b clean_text_corpus_filter]
    by blast
qed

theorem clean_text_output_shape_witness:
  "(let out = clean_text ''see <a href='x'>here</a> and @@12 more'' {}
    in out = ''see here and more''
       \<and> py_split out = [''see'', ''here'', ''and'', ''more'']
       \<and> out = py_join '' '' (py_split out)
       \<and> (\<forall>w\<in>set (py_split out). w \<noteq> [] \<and> (\<forall>c\<in>set w. is_az c))
       \<and> CHR ''<'' \<notin> set out \<and> CHR ''>'' \<notin> set out
       \<and> (\<forall>c\<in>set out. \<not> is_digit c) \<and> \<not> contains ''@@'' out)
   \<and> (let out = clean_text_corpus ''see <a href='x'>here</a> and @@12 more'' {}
    in out = ''see here and more''
       \<and> py_split out = [''see'', ''here'', ''and'', ''more'']
       \<and> out = py_join '' '' (py_split out)
       \<and> (\<forall>w\<in>set (py_split out). w \<noteq> [] \<and> (\<forall>c\<in>set w. is_az c))
       \<and> CHR ''<'' \<notin> set out \<and> CHR ''>'' \<notin> set out
       \<and> (\<forall>c\<in>set out. \<not> is_digit c) \<and> \<not> contains ''@@'' out)"
proof -
  have v: "clean_text ''see <a href='x'>here</a> and @@12 more'' {} = ''see here and more''"
    by (simp add: clean_text_def py_strip_def isspace_def is_digit_def append_word_def py_lower_def
        lower_char_def char_of_eval sub_non_az_def is_az_def is_gibberish_def kbd_patt_def
        search_vowel_def is_vowel_def)
  have vc: "clean_text_corpus ''see <a href='x'>here</a> and @@12 more'' {}
              = ''see here and more''"
    by (simp add: clean_text_corpus_def isspace_def is_digit_def append_word_corpus_def py_lower_def
        lower_char_def char_of_eval sub_non_az_def is_az_def is_gibberish_corpus_def
        keyboard_patterns_def search_vowel_def is_vowel_def)
  have sp: "py_split ''see here and more'' = [''see'', ''here'', ''and'', ''more'']"
    by (simp add: isspace_def)
  show ?thesis
    using clean_text_output_shape [of "''see <a href='x'>here</a> and @@12 more''" "{}"]
    unfolding Let_def v vc sp
    by (simp add: is_az_def is_digit_def)
qed

text \<open>
  C5: for every stop-word set, cleaning the empty string gives the empty string, and cleaning
  a text made of whitespace only gives the empty string, in filter.py (which tests for it
  first) and in filter\_corpus.py (which has no such test).
\<close>

theorem clean_text_blank:
  "clean_text [] sw = [] \<and> clean_text_corpus [] sw = []
   \<and> ((\<forall>c\<in>set text. isspace c) \<longrightarrow> clean_text text sw = [] \<and> clean_text_corpus text sw = [])"
proof -
  have blank: "clean_text t sw = [] \<and> clean_text_corpus t sw = []" if "\<forall>c\<in>set t. isspace c" for t
  proof -
    have "sub_tags (sub_markers t) = t"
      using that by (simp add: blank_no_markup sub_markers_id sub_tags_id)
    with that show ?thesis
      by (simp add: clean_text_filter clean_text_corpus_filter py_split_blank)
  qed
  from blank[of "[]"] blank[of "text"] show ?thesis by simp
qed

theorem clean_text_blank_witness:
  "list_all isspace (''   '' @ [CHR 0x0A, CHR 0x09])
   \<and> clean_text (''   '' @ [CHR 0x0A, CHR 0x09]) {''the''} = []
   \<and> clean_text_corpus (''   '' @ [CHR 0x0A, CHR 0x09]) {''the''} = []
   \<and> clean_text [] {''the''} = [] \<and> clean_text_corpus [] {''the''} = []"
proof -
  have blank: "\<forall>c\<in>set (''   '' @ [CHR 0x0A, CHR 0x09]). isspace c"
    by (simp add: isspace_def)
  then have "list_all isspace (''   '' @ [CHR 0x0A, CHR 0x09])"
    by (simp only: list_all_iff)
  with blank clean_text_blank [of "{''the''}" "''   '' @ [CHR 0x0A, CHR 0x09]"] show ?thesis
    by blast
qed

text \<open>
  C6: cleaning is idempotent in both scripts: for every text and every stop-word set,
  cleaning the cleaned text again returns it unchanged.
\<close>

theorem clean_text_idempotent:
  "clean_text (clean_text text sw) sw = clean_text text sw
   \<and> clean_text_corpus (clean_text_corpus text sw) sw = clean_text_corpus text sw"
proof -
  let ?ts = "map normalized (py_split (sub_tags (sub_markers text)))"
  have a: "\<forall>w\<in>set (filter (survives sw) ?ts). w \<noteq> [] \<and> (\<forall>c\<in>set w. is_az c) \<and> survives sw w"
    by (auto simp: survives_def dest: normalized_az)
  have b: "\<forall>w\<in>set (filter (survives_corpus sw) ?ts).
             w \<noteq> [] \<and> (\<forall>c\<in>set w. is_az c) \<and> survives_corpus sw w"
    by (auto simp: survives_corpus_def dest: normalized_az)
  show ?thesis
    using reclean_fixed[OF a] reclean_fixed[OF b]
    by (simp add: clean_text_filter clean_text_corpus_filter)
qed

theorem clean_text_idempotent_witness:
  "clean_text ''The <b>Cat</b> sat, qwerty!'' {''the''} = ''cat sat''
   \<and> clean_text (clean_text ''The <b>Cat</b> sat, qwerty!'' {''the''}) {''the''}
       = clean_text ''The <b>Cat</b> sat, qwerty!'' {''the''}
   \<and> clean_text_corpus (clean_text_corpus ''The <b>Cat</b> sat, qwerty!'' {''the''}) {''the''}
       = clean_text_corpus ''The <b>Cat</b> sat, qwerty!'' {''the''}"
proof -
  have v: "clean_text ''The <b>Cat</b> sat, qwerty!'' {''the''} = ''cat sat''"
    by (simp add: clean_text_def py_strip_def isspace_def is_digit_def append_word_def py_lower_def
        lower_char_def char_of_eval sub_non_az_def is_az_def is_gibberish_def kbd_patt_def
        search_vowel_def is_vowel_def)
  from v clean_text_idempotent [of "''The <b>Cat</b> sat, qwerty!''" "{''the''}"]
  show ?thesis by simp
qed

text \<open>
  C7: token order. For every text and stop-word set, the tokens of the output of
  \<open>clean_text\<close> are exactly the normalized tokens of the markup-stripped input that are
  non-empty, not stop words and not gibberish, in the order in which the tokens they come
  from stand in the input; in particular they form a subsequence of the normalized tokens.
\<close>

theorem clean_text_order:
  "py_split (clean_text text sw)
     = filter (survives sw) (map normalized (py_split (sub_tags (sub_markers text))))
   \<and> py_split (clean_text_corpus text sw)
     = filter (survives_corpus sw) (map normalized (py_split (sub_tags (sub_markers text))))
   \<and> subseq (py_split (clean_text text sw))
        (map normalized (py_split (sub_tags (sub_markers text))))
   \<and> subseq (py_split (clean_text_corpus text sw))
        (map normalized (py_split (sub_tags (sub_markers text))))"
proof -
  let ?ts = "map normalized (py_split (sub_tags (sub_markers text)))"
  have a: "\<forall>w\<in>set (filter (survives sw) ?ts). w \<noteq> [] \<and> (\<forall>c\<in>set w. is_az c)"
    by (auto simp: survives_def dest: normalized_az)
  have b: "\<forall>w\<in>set (filter (survives_corpus sw) ?ts). w \<noteq> [] \<and> (\<forall>c\<in>set w. is_az c)"
    by (auto simp: survives_corpus_def dest: normalized_az)
  show ?thesis
    using join_az_split[OF a] join_az_split[OF b]
    by (simp add: clean_text_filter clean_text_corpus_filter)
qed

theorem clean_text_order_witness:
  "map normalized (py_split (sub_tags (sub_markers ''The <b>Cat</b> sat, qwerty! 42 on the mat'')))
     = [''the'', ''cat'', ''sat'', ''qwerty'', [], ''on'', ''the'', ''mat'']
   \<and> py_split (clean_text ''The <b>Cat</b> sat, qwerty! 42 on the mat'' {''the''})
     = [''cat'', ''sat'', ''on'', ''mat'']
   \<and> py_split (clean_text_corpus ''The <b>Cat</b> sat, qwerty! 42 on the mat'' {''the''})
     = [''cat'', ''sat'', ''on'', ''mat'']"
proof -
  have t: "map normalized (py_split (sub_tags (sub_markers
             ''The <b>Cat</b> sat, qwerty! 42 on the mat'')))
           = [''the'', ''cat'', ''sat'', ''qwerty'', [], ''on'', ''the'', ''mat'']"
    by (simp add: normalized_def isspace_def is_digit_def py_lower_def lower_char_def
        char_of_eval sub_non_az_def is_az_def)
  have k: "filter (survives {''the''})
             [''the'', ''cat'', ''sat'', ''qwerty'', [], ''on'', ''the'', ''mat'']
           = [''cat'', ''sat'', ''on'', ''mat'']"
    by (simp add: survives_def is_gibberish_def kbd_patt_def search_vowel_def is_vowel_def)
  have kc: "filter (survives_corpus {''the''})
             [''the'', ''cat'', ''sat'', ''qwerty'', [], ''on'', ''the'', ''mat'']
           = [''cat'', ''sat'', ''on'', ''mat'']"
    by (simp add: survives_corpus_def is_gibberish_corpus_def keyboard_patterns_def
        search_vowel_def is_vowel_def)
  show ?thesis
    using clean_text_order [of "''The <b>Cat</b> sat, qwerty! 42 on the mat''" "{''the''}"]
    unfolding t k kc by simp
qed

text \<open>
  C8: with the stop words \<open>the\<close> and \<open>and\<close>, cleaning \<open>the cat and the hat\<close> gives
  exactly \<open>cat hat\<close>, in both scripts.
\<close>

theorem stop_words_dropped:
  "clean_text ''the cat and the hat'' {''the'', ''and''} = ''cat hat''
   \<and> clean_text_corpus ''the cat and the hat'' {''the'', ''and''} = ''cat hat''"
proof
  show "clean_text ''the cat and the hat'' {''the'', ''and''} = ''cat hat''"
    by (simp add: clean_text_def py_strip_def isspace_def is_digit_def append_word_def py_lower_def
        lower_char_def char_of_eval sub_non_az_def is_az_def is_gibberish_def kbd_patt_def
        search_vowel_def is_vowel_def)
  show "clean_text_corpus ''the cat and the hat'' {''the'', ''and''} = ''cat hat''"
    by (simp add: clean_text_corpus_def isspace_def is_digit_def append_word_corpus_def py_lower_def
        lower_char_def char_of_eval sub_non_az_def is_az_def is_gibberish_corpus_def
        keyboard_patterns_def search_vowel_def is_vowel_def)
qed


section \<open>The classifier\<close>

text \<open>
  C2: in both scripts, a token longer than 5 characters without any of the vowels
  a, e, i, o, u is gibberish; and a vowel-free token of 2 to 5 characters in which no
  character stands four times in a row and which contains no entry of the script's
  keyboard-pattern table is not gibberish. (This holds for every string, normalized or not.)
\<close>

theorem vowel_rule:
  "(5 < length w \<and> set w \<inter> set ''aeiou'' = {} \<longrightarrow> is_gibberish w \<and> is_gibberish_corpus w)
   \<and> (2 \<le> length w \<and> length w \<le> 5 \<and> set w \<inter> set ''aeiou'' = {}
        \<and> (\<forall>c. \<not> contains [c, c, c, c] w) \<and> (\<forall>p\<in>set kbd_patt. \<not> contains p w)
      \<longrightarrow> \<not> is_gibberish w)
   \<and> (2 \<le> length w \<and> length w \<le> 5 \<and> set w \<inter> set ''aeiou'' = {}
        \<and> (\<forall>c. \<not> contains [c, c, c, c] w) \<and> (\<forall>p\<in>set keyboard_patterns. \<not> contains p w)
      \<longrightarrow> \<not> is_gibberish_corpus w)"
proof (intro conjI impI)
  assume "5 < length w \<and> set w \<inter> set ''aeiou'' = {}"
  then have "5 < length w" and "\<not> search_vowel w"
    by (simp_all add: search_vowel_iff)
  then show "is_gibberish w" and "is_gibberish_corpus w"
    by (simp_all add: is_gibberish_def is_gibberish_corpus_def)
next
  assume h: "2 \<le> length w \<and> length w \<le> 5 \<and> set w \<inter> set ''aeiou'' = {}
        \<and> (\<forall>c. \<not> contains [c, c, c, c] w) \<and> (\<forall>p\<in>set kbd_patt. \<not> contains p w)"
  then have "\<not> search_repeat w"
    using search_repeat_run by blast
  moreover from h have "\<not> any_pattern_in kbd_patt w"
    by (simp add: any_pattern_in_iff)
  ultimately show "\<not> is_gibberish w"
    using h by (simp add: is_gibberish_def)
next
  assume h: "2 \<le> length w \<and> length w \<le> 5 \<and> set w \<inter> set ''aeiou'' = {}
        \<and> (\<forall>c. \<not> contains [c, c, c, c] w) \<and> (\<forall>p\<in>set keyboard_patterns. \<not> contains p w)"
  then have "\<not> search_repeat w"
    using search_repeat_run by blast
  moreover from h have "\<not> any_pattern_in keyboard_patterns w"
    by (simp add: any_pattern_in_iff)
  ultimately show "\<not> is_gibberish_corpus w"
    using h by (simp add: is_gibberish_corpus_def)
qed

theorem vowel_rule_witness:
  "5 < length ''rhythm'' \<and> set ''rhythm'' \<inter> set ''aeiou'' = {}
   \<and> is_gibberish ''rhythm'' \<and> is_gibberish_corpus ''rhythm''
   \<and> 2 \<le> length ''nth'' \<and> length ''nth'' \<le> 5 \<and> set ''nth'' \<inter> set ''aeiou'' = {}
   \<and> (\<forall>c. \<not> contains [c, c, c, c] ''nth'')
   \<and> \<not> (\<exists>p\<in>set kbd_patt. contains p ''nth'')
   \<and> \<not> (\<exists>p\<in>set keyboard_patterns. contains p ''nth'')
   \<and> \<not> is_gibberish ''nth'' \<and> \<not> is_gibberish_corpus ''nth''"
proof -
  have l: "5 < length ''rhythm'' \<and> set ''rhythm'' \<inter> set ''aeiou'' = {}"
    by simp
  have s: "2 \<le> length ''nth'' \<and> length ''nth'' \<le> 5 \<and> set ''nth'' \<inter> set ''aeiou'' = {}
           \<and> (\<forall>c. \<not> contains [c, c, c, c] ''nth'')"
    by simp
  have k: "\<forall>p\<in>set kbd_patt. \<not> contains p ''nth''"
    by (simp add: kbd_patt_def)
  have k': "\<forall>p\<in>set keyboard_patterns. \<not> contains p ''nth''"
    by (simp add: keyboard_patterns_def)
  from l s k k' vowel_rule [of "''rhythm''"] vowel_rule [of "''nth''"] show ?thesis
    by blast
qed

text \<open>
  C3, as the specification states it: \<open>is_gibberish("rhythm")\<close> returns false. Both scripts
  return true.
\<close>

theorem rhythm_counterexample:
  "\<not> (is_gibberish ''rhythm'' = False) \<and> \<not> (is_gibberish_corpus ''rhythm'' = False)"
  by (simp add: is_gibberish_def is_gibberish_corpus_def search_vowel_def is_vowel_def)

text \<open>
  C3, amended: \<open>is_gibberish("rhythm")\<close> returns true in both scripts, because the token has
  6 characters, which is more than 5, and none of them is one of the vowels a, e, i, o, u.
\<close>

theorem rhythm_is_gibberish:
  "length ''rhythm'' = 6 \<and> \<not> search_vowel ''rhythm''
   \<and> is_gibberish ''rhythm'' = True \<and> is_gibberish_corpus ''rhythm'' = True"
  by (simp add: is_gibberish_def is_gibberish_corpus_def search_vowel_def is_vowel_def)

text \<open>
  C4: the examples of the specification. In both scripts \<open>qwerty\<close>, \<open>aaaa\<close>,
  \<open>xyzzzzzzzzz\<close> and \<open>a\<close> are gibberish and \<open>ok\<close> is not.
\<close>

theorem gibberish_examples:
  "is_gibberish ''qwerty'' = True \<and> is_gibberish ''aaaa'' = True
   \<and> is_gibberish ''xyzzzzzzzzz'' = True \<and> is_gibberish ''a'' = True
   \<and> is_gibberish ''ok'' = False
   \<and> is_gibberish_corpus ''qwerty'' = True \<and> is_gibberish_corpus ''aaaa'' = True
   \<and> is_gibberish_corpus ''xyzzzzzzzzz'' = True \<and> is_gibberish_corpus ''a'' = True
   \<and> is_gibberish_corpus ''ok'' = False"
  by (simp add: is_gibberish_def is_gibberish_corpus_def kbd_patt_def keyboard_patterns_def
      search_vowel_def is_vowel_def)


section \<open>The two classifiers compared\<close>

text \<open>
  C9: the classifier of filter.py and that of filter\_corpus.py are the same checks with
  another length cap (32 and 25) and another keyboard-pattern table. On every token of at
  most 25 characters that contains none of the patterns found in the table of filter.py only
  they return the same result; on every token of 26 to 32 characters that passes the other
  checks of filter.py they disagree, and such a token exists.
\<close>

theorem classifiers_compared:
  "is_gibberish w = gibberish_by 32 kbd_patt w
   \<and> is_gibberish_corpus w = gibberish_by 25 keyboard_patterns w
   \<and> (length w \<le> 25
        \<and> (\<forall>p\<in>set [''qazwsx'', ''edcrfv'', ''tgbnhy'', ''ujmki'', ''plm'', ''qaz'', ''wsx'',
                      ''edc'', ''rfv'', ''tgb'', ''yhn'', ''ujm'', ''ikm'', '' plm''].
              \<not> contains p w)
      \<longrightarrow> is_gibberish w = is_gibberish_corpus w)
   \<and> (26 \<le> length w \<and> length w \<le> 32 \<and> \<not> search_repeat w \<and> search_vowel w
        \<and> (\<forall>p\<in>set kbd_patt. \<not> contains p w)
      \<longrightarrow> \<not> is_gibberish w \<and> is_gibberish_corpus w)
   \<and> (\<exists>u. is_gibberish u \<noteq> is_gibberish_corpus u)"
proof (intro conjI impI)
  show "is_gibberish w = gibberish_by 32 kbd_patt w"
    by (rule is_gibberish_by)
  show "is_gibberish_corpus w = gibberish_by 25 keyboard_patterns w"
    by (rule is_gibberish_corpus_by)
next
  assume h: "length w \<le> 25
        \<and> (\<forall>p\<in>set [''qazwsx'', ''edcrfv'', ''tgbnhy'', ''ujmki'', ''plm'', ''qaz'', ''wsx'',
                      ''edc'', ''rfv'', ''tgb'', ''yhn'', ''ujm'', ''ikm'', '' plm''].
              \<not> contains p w)"
  have tables: "kbd_patt = keyboard_patterns
        @ [''qazwsx'', ''edcrfv'', ''tgbnhy'', ''ujmki'', ''plm'', ''qaz'', ''wsx'',
           ''edc'', ''rfv'', ''tgb'', ''yhn'', ''ujm'', ''ikm'', '' plm'']"
    by (simp add: kbd_patt_def keyboard_patterns_def)
  have "(\<exists>p\<in>set kbd_patt. contains p w) \<longleftrightarrow> (\<exists>p\<in>set keyboard_patterns. contains p w)"
    unfolding tables using h by auto
  then have "gibberish_by 32 kbd_patt w = gibberish_by 32 keyboard_patterns w"
    by (rule gibberish_by_table)
  also have "\<dots> = gibberish_by 25 keyboard_patterns w"
    using h by (intro gibberish_by_cap) simp_all
  finally show "is_gibberish w = is_gibberish_corpus w"
    by (simp add: is_gibberish_by is_gibberish_corpus_by)
next
  assume h: "26 \<le> length w \<and> length w \<le> 32 \<and> \<not> search_repeat w \<and> search_vowel w
        \<and> (\<forall>p\<in>set kbd_patt. \<not> contains p w)"
  then have "\<not> any_pattern_in kbd_patt w"
    by (simp add: any_pattern_in_iff)
  with h show "\<not> is_gibberish w" and "is_gibberish_corpus w"
    by (simp_all add: is_gibberish_def is_gibberish_corpus_def)
next
  have "is_gibberish ''ababababababababababababab'' \<noteq> is_gibberish_corpus ''ababababababababababababab''"
    by (simp add: is_gibberish_def is_gibberish_corpus_def kbd_patt_def search_vowel_def
        is_vowel_def)
  then show "\<exists>u. is_gibberish u \<noteq> is_gibberish_corpus u" ..
qed


theorem classifiers_compared_witness:
  "length ''cat'' \<le> 25
   \<and> \<not> (\<exists>p\<in>set [''qazwsx'', ''edcrfv'', ''tgbnhy'', ''ujmki'', ''plm'', ''qaz'', ''wsx'',
                 ''edc'', ''rfv'', ''tgb'', ''yhn'', ''ujm'', ''ikm'', '' plm''].
         contains p ''cat'')
   \<and> is_gibberish ''cat'' = is_gibberish_corpus ''cat''
   \<and> 26 \<le> length ''ababababababababababababab'' \<and> length ''ababababababababababababab'' \<le> 32
   \<and> \<not> search_repeat ''ababababababababababababab'' \<and> search_vowel ''ababababababababababababab''
   \<and> \<not> (\<exists>p\<in>set kbd_patt. contains p ''ababababababababababababab'')
   \<and> \<not> is_gibberish ''ababababababababababababab'' \<and> is_gibberish_corpus ''ababababababababababababab''"
proof -
  have a: "length ''cat'' \<le> 25
     \<and> (\<forall>p\<in>set [''qazwsx'', ''edcrfv'', ''tgbnhy'', ''ujmki'', ''plm'', ''qaz'', ''wsx'',
                 ''edc'', ''rfv'', ''tgb'', ''yhn'', ''ujm'', ''ikm'', '' plm''].
           \<not> contains p ''cat'')"
    by simp
  have b: "26 \<le> length ''ababababababababababababab'' \<and> length ''ababababababababababababab'' \<le> 32
     \<and> \<not> search_repeat ''ababababababababababababab'' \<and> search_vowel ''ababababababababababababab''
     \<and> (\<forall>p\<in>set kbd_patt. \<not> contains p ''ababababababababababababab'')"
    by (simp add: search_vowel_def is_vowel_def kbd_patt_def)
  have r1: "is_gibberish ''cat'' = is_gibberish_corpus ''cat''"
    using conjunct1 [OF conjunct2 [OF conjunct2 [OF classifiers_compared [of "''cat''"]]]] a
    by (rule mp)
  have r2: "\<not> is_gibberish ''ababababababababababababab'' \<and> is_gibberish_corpus ''ababababababababababababab''"
    using conjunct1 [OF conjunct2 [OF conjunct2 [OF conjunct2
            [OF classifiers_compared [of "''ababababababababababababab''"]]]]] b
    by (rule mp)
  have a': "\<not> (\<exists>p\<in>set [''qazwsx'', ''edcrfv'', ''tgbnhy'', ''ujmki'', ''plm'', ''qaz'', ''wsx'',
                 ''edc'', ''rfv'', ''tgb'', ''yhn'', ''ujm'', ''ikm'', '' plm''].
         contains p ''cat'')"
    using a by blast
  have b': "\<not> (\<exists>p\<in>set kbd_patt. contains p ''ababababababababababababab'')"
    using b by blast
  from a a' b b' r1 r2 show ?thesis
    by blast
qed

text \<open>
  C10: the entry \<open>" plm"\<close> (with a leading space) of the keyboard-pattern table of filter.py
  is redundant. For every string, the classifier with that entry removed from the table
  (\<open>is_gibberish\<close> is \<open>gibberish_by\<close> at the cap 32 and the table \<open>kbd_patt\<close>)
  returns what \<open>is_gibberish\<close> returns, because a string that contains \<open>" plm"\<close> also
  contains \<open>"plm"\<close>, which stays in the table; and a normalized token, made of the letters
  a-z only, never contains \<open>" plm"\<close>.
\<close>

theorem plm_entry_redundant:
  "is_gibberish w = gibberish_by 32 kbd_patt w
   \<and> gibberish_by 32 (remove1 '' plm'' kbd_patt) w = is_gibberish w
   \<and> '' plm'' \<notin> set (remove1 '' plm'' kbd_patt)
   \<and> ''plm'' \<in> set (remove1 '' plm'' kbd_patt)
   \<and> (contains '' plm'' w \<longrightarrow> contains ''plm'' w)
   \<and> ((\<forall>c\<in>set w. is_az c) \<longrightarrow> CHR '' '' \<notin> set w \<and> \<not> contains '' plm'' w)"
proof (intro conjI impI)
  show "is_gibberish w = gibberish_by 32 kbd_patt w"
    by (rule is_gibberish_by)
next
  have split: "kbd_patt = remove1 '' plm'' kbd_patt @ ['' plm'']"
    by (simp add: kbd_patt_def)
  show kept: "''plm'' \<in> set (remove1 '' plm'' kbd_patt)"
    by (simp add: kbd_patt_def)
  show "'' plm'' \<notin> set (remove1 '' plm'' kbd_patt)"
    by (simp add: kbd_patt_def)
  have tail: "contains ''plm'' w" if "contains '' plm'' w"
    using that by (rule contains_tail)
  have "(\<exists>p\<in>set (remove1 '' plm'' kbd_patt @ ['' plm'']). contains p w)
        \<longleftrightarrow> (\<exists>p\<in>set (remove1 '' plm'' kbd_patt). contains p w)"
    using kept tail by auto
  with split have "(\<exists>p\<in>set (remove1 '' plm'' kbd_patt). contains p w)
        \<longleftrightarrow> (\<exists>p\<in>set kbd_patt. contains p w)"
    by simp
  then have "gibberish_by 32 (remove1 '' plm'' kbd_patt) w = gibberish_by 32 kbd_patt w"
    by (rule gibberish_by_table)
  then show "gibberish_by 32 (remove1 '' plm'' kbd_patt) w = is_gibberish w"
    by (simp add: is_gibberish_by)
next
  assume "contains '' plm'' w"
  then show "contains ''plm'' w"
    by (rule contains_tail)
next
  assume az: "\<forall>c\<in>set w. is_az c"
  show no_space: "CHR '' '' \<notin> set w"
  proof
    assume "CHR '' '' \<in> set w"
    with az have "is_az (CHR '' '')"
      by blast
    then show False
      by (simp add: is_az_def)
  qed
  show "\<not> contains '' plm'' w"
  proof
    assume "contains '' plm'' w"
    then have "set '' plm'' \<subseteq> set w"
      by (rule contains_set)
    with no_space show False
      by simp
  qed
qed

theorem plm_entry_redundant_witness:
  "contains '' plm'' ''a plm'' \<and> contains ''plm'' ''a plm''
   \<and> gibberish_by 32 (remove1 '' plm'' kbd_patt) ''a plm'' = is_gibberish ''a plm''
   \<and> list_all is_az ''plum'' \<and> \<not> contains '' plm'' ''plum''"
proof -
  have a: "contains '' plm'' ''a plm''"
    by simp
  have b: "\<forall>c\<in>set ''plum''. is_az c"
    by (simp add: is_az_def)
  have r1: "gibberish_by 32 (remove1 '' plm'' kbd_patt) ''a plm'' = is_gibberish ''a plm''"
    using conjunct2 [OF plm_entry_redundant [of "''a plm''"]] by (rule conjunct1)
  have r2: "contains ''plm'' ''a plm''"
    using conjunct1 [OF conjunct2 [OF conjunct2 [OF conjunct2 [OF conjunct2
            [OF plm_entry_redundant [of "''a plm''"]]]]]] a
    by (rule mp)
  have "CHR '' '' \<notin> set ''plum'' \<and> \<not> contains '' plm'' ''plum''"
    using conjunct2 [OF conjunct2 [OF conjunct2 [OF conjunct2 [OF conjunct2
            [OF plm_entry_redundant [of "''plum''"]]]]]] b
    by (rule mp)
  then have r3: "\<not> contains '' plm'' ''plum''"
    by (rule conjunct2)
  have b': "list_all is_az ''plum''"
    using b by (simp only: list_all_iff)
  show ?thesis
    by (intro conjI a r2 r1 b' r3)
qed

end
